theory Spec2Isabelle
  imports Main "HOL-Library.Word" "HOL-Library.AList"
begin

unbundle bit_operations_syntax

text \<open>
  A model of the entity-component-system library \<open>ecs\<close>: the variant with the class
  \<open>Mask\<close>, the singleton components and the exported \<open>context\<close>. Of the first variant in
  the sources (entity flags of two 30-bit numbers) only the constructor of Context is
  modelled. The classes are records, the module variables one record of state that every
  operation takes and returns, the exceptions values of a sum type.
\<close>

section \<open>Errors\<close>

text \<open>
  The exceptions of the library as values. \<open>TypeError\<close> is the JavaScript runtime error of
  reading a property of \<open>null\<close> or \<open>undefined\<close>; the other two are the library's own
  \<open>throw new Error(...)\<close>.
\<close>

datatype error = TypeError | AlreadyContainComponent | TooManyComponents

definition bnd :: "error + 'a \<Rightarrow> ('a \<Rightarrow> error + 'b) \<Rightarrow> error + 'b" where
  "bnd m f = (case m of Inl e \<Rightarrow> Inl e | Inr x \<Rightarrow> f x)"

section \<open>Mask (class Mask, a Uint32Array)\<close>

type_synonym Mask = "32 word list"

text \<open>\<open>new Mask()\<close>: \<open>Math.ceil(compTid / 32)\<close> words, all zero; the argument is the
  value of the module variable \<open>compTid\<close> at the time of the call.\<close>

definition Mask_new :: "nat \<Rightarrow> Mask" where
  "Mask_new compTid = replicate ((compTid + 31) div 32) 0"

text \<open>A typed array ignores a write past its end and reads \<open>undefined\<close> there; the bitwise
  operators coerce \<open>undefined\<close> to 0.\<close>

definition Mask_at :: "Mask \<Rightarrow> nat \<Rightarrow> 32 word" where
  "Mask_at m i = (if i < length m then m ! i else 0)"

definition Mask_set :: "Mask \<Rightarrow> nat \<Rightarrow> Mask" where
  "Mask_set m num =
     (if num div 32 < length m
      then m[num div 32 := (m ! (num div 32)) OR push_bit (num mod 32) 1]
      else m)"

definition Mask_delete :: "Mask \<Rightarrow> nat \<Rightarrow> Mask" where
  "Mask_delete m num =
     (if num div 32 < length m
      then m[num div 32 := (m ! (num div 32)) AND NOT (push_bit (num mod 32) 1)]
      else m)"

definition Mask_has :: "Mask \<Rightarrow> nat \<Rightarrow> bool" where
  "Mask_has m num = (Mask_at m (num div 32) AND push_bit (num mod 32) 1 \<noteq> 0)"

text \<open>\<open>or\<close>: some word of \<open>this\<close> shares a bit with the same word of \<open>other\<close>.\<close>

definition Mask_or :: "Mask \<Rightarrow> Mask \<Rightarrow> bool" where
  "Mask_or this other =
     list_ex (\<lambda>i. (this ! i) AND Mask_at other i \<noteq> 0) [0..<length this]"

text \<open>\<open>and\<close>: the loop returns false at the first word with
  \<open>(this.mask[i] & other.mask[i]) != this.mask[i]\<close>. The operator \<open>&\<close> yields a signed
  32-bit number, while the element read from the Uint32Array is unsigned: the comparison is
  between \<open>sint\<close> of the conjunction and \<open>uint\<close> of the word.\<close>

definition Mask_and :: "Mask \<Rightarrow> Mask \<Rightarrow> bool" where
  "Mask_and this other =
     list_all (\<lambda>i. \<not> (sint ((this ! i) AND Mask_at other i) \<noteq> uint (this ! i)))
       [0..<length this]"

definition Mask_clear :: "Mask \<Rightarrow> Mask" where
  "Mask_clear m = map (\<lambda>_. 0) m"

section \<open>Component constructors and the registry\<close>

record ctor =
  tid :: nat
  compName :: string

text \<open>The module variables \<open>compTid\<close> and \<open>componentConstructors\<close>.\<close>

record Registry =
  compTid :: nat
  componentConstructors :: "ctor list"

text \<open>\<open>register(componentName)(ctor)\<close>. The second argument is the class as it stands before
  the call: \<open>None\<close> when its \<open>tid\<close> is still null, \<open>Some c\<close> when it was registered before.\<close>

definition register :: "string \<Rightarrow> ctor option \<Rightarrow> Registry \<Rightarrow> error + (ctor \<times> Registry)" where
  "register componentName c reg =
     (case c of
        None \<Rightarrow>
          (let c' = \<lparr>tid = compTid reg, compName = componentName\<rparr>
           in Inr (c', \<lparr>compTid = compTid reg + 1,
                       componentConstructors = componentConstructors reg @ [c']\<rparr>))
      | Some _ \<Rightarrow> Inl AlreadyContainComponent)"

section \<open>Rules (BaseOf, AnyOf, AllOf, ExcludeOf)\<close>

datatype RuleKind = AnyOf | AllOf | ExcludeOf

record BaseOf =
  kind :: RuleKind
  r_mask :: Mask
  indices :: "nat list"

text \<open>The constructor of BaseOf: every argument sets its bit, the indices keep the first
  occurrence of each argument, and are sorted when there is more than one argument. The
  first parameter is \<open>compTid\<close> at the time of the call (the length of the new Mask).\<close>

definition BaseOf_new :: "nat \<Rightarrow> RuleKind \<Rightarrow> nat list \<Rightarrow> BaseOf" where
  "BaseOf_new n k args =
     \<lparr>kind = k,
      r_mask = fold (\<lambda>componentTypeId m. Mask_set m componentTypeId) args (Mask_new n),
      indices = (if length args > 1 then sort (rev (remdups (rev args)))
                 else rev (remdups (rev args)))\<rparr>"

definition rule_isMatch :: "BaseOf \<Rightarrow> Mask \<Rightarrow> bool" where
  "rule_isMatch r entity_mask =
     (case kind r of
        AnyOf \<Rightarrow> Mask_or (r_mask r) entity_mask
      | AllOf \<Rightarrow> Mask_and (r_mask r) entity_mask
      | ExcludeOf \<Rightarrow> \<not> Mask_or (r_mask r) entity_mask)"

function show_nat :: "nat \<Rightarrow> string" where
  "show_nat n =
     (if n < 10 then [char_of (48 + n)]
      else show_nat (n div 10) @ [char_of (48 + n mod 10)])"
  by pat_completeness auto
termination
  by (relation "measure (\<lambda>n. n)") auto

fun join :: "string \<Rightarrow> string list \<Rightarrow> string" where
  "join sep [] = []"
| "join sep [x] = x"
| "join sep (x # y # xs) = x @ sep @ join sep (y # xs)"

definition rule_getKey :: "BaseOf \<Rightarrow> string" where
  "rule_getKey r =
     (case kind r of AnyOf \<Rightarrow> ''anyOf:'' | AllOf \<Rightarrow> ''allOf:'' | ExcludeOf \<Rightarrow> ''excludeOf:'')
     @ join ''-'' (map show_nat (indices r))"

section \<open>Matcher and OrMatcher\<close>

datatype Matcher = Matcher (rules: "BaseOf list") | OrMatcher (rules: "BaseOf list")

definition m_indices :: "Matcher \<Rightarrow> nat list" where
  "m_indices m = concat (map indices (rules m))"

definition push_rule :: "BaseOf \<Rightarrow> Matcher \<Rightarrow> Matcher" where
  "push_rule r m = (case m of Matcher rs \<Rightarrow> Matcher (rs @ [r]) | OrMatcher rs \<Rightarrow> OrMatcher (rs @ [r]))"

definition anyOf :: "Registry \<Rightarrow> ctor list \<Rightarrow> Matcher \<Rightarrow> Matcher" where
  "anyOf reg args m = push_rule (BaseOf_new (compTid reg) AnyOf (map tid args)) m"

definition allOf :: "Registry \<Rightarrow> ctor list \<Rightarrow> Matcher \<Rightarrow> Matcher" where
  "allOf reg args m = push_rule (BaseOf_new (compTid reg) AllOf (map tid args)) m"

definition excludeOf :: "Registry \<Rightarrow> ctor list \<Rightarrow> Matcher \<Rightarrow> Matcher" where
  "excludeOf reg args m = push_rule (BaseOf_new (compTid reg) ExcludeOf (map tid args)) m"

text \<open>\<open>onlyOf\<close>: an AllOf rule over the arguments, then an ExcludeOf rule over every
  registered constructor whose tid is not among the arguments.\<close>

definition onlyOf :: "Registry \<Rightarrow> ctor list \<Rightarrow> Matcher \<Rightarrow> Matcher" where
  "onlyOf reg args m =
     (let newArgs = map tid args;
          otherTids = map tid (filter (\<lambda>c. tid c \<notin> set newArgs) (componentConstructors reg))
      in push_rule (BaseOf_new (compTid reg) ExcludeOf otherTids)
           (push_rule (BaseOf_new (compTid reg) AllOf newArgs) m))"

definition isMatch :: "Matcher \<Rightarrow> Mask \<Rightarrow> bool" where
  "isMatch m entity_mask =
     (case m of
        Matcher rs \<Rightarrow>
          (case rs of
             [r0] \<Rightarrow> rule_isMatch r0 entity_mask
           | [r0, r1] \<Rightarrow> rule_isMatch r0 entity_mask \<and> rule_isMatch r1 entity_mask
           | _ \<Rightarrow> list_all (\<lambda>r. rule_isMatch r entity_mask) rs)
      | OrMatcher rs \<Rightarrow>
          (case rs of
             [r0, r1] \<Rightarrow> rule_isMatch r0 entity_mask \<or> rule_isMatch r1 entity_mask
           | [r0] \<Rightarrow> rule_isMatch r0 entity_mask
           | _ \<Rightarrow> list_ex (\<lambda>r. rule_isMatch r entity_mask) rs))"

definition getKey :: "Matcher \<Rightarrow> string" where
  "getKey m =
     (case m of
        Matcher rs \<Rightarrow> join '' && '' (map rule_getKey rs)
      | OrMatcher rs \<Rightarrow> join '' || '' (map rule_getKey rs))"

section \<open>Group\<close>

text \<open>\<open>_matchEntities\<close> is a Map from eid to the entity object; an entity object is referred
  to by its eid, so the Map is the list of its keys in insertion order.\<close>

record Group =
  matcher :: Matcher
  matchEntities :: "nat list"
  entitiesCache :: "nat list option"
  count :: int

definition Group_new :: "Matcher \<Rightarrow> Group" where
  "Group_new m = \<lparr>matcher = m, matchEntities = [], entitiesCache = None, count = 0\<rparr>"

text \<open>\<open>Map.set\<close> keeps the place of a key that is present and appends a new one.\<close>

definition Map_set_key :: "nat \<Rightarrow> nat list \<Rightarrow> nat list" where
  "Map_set_key k ks = (if k \<in> set ks then ks else ks @ [k])"

text \<open>\<open>onComponentAddOrRemove(entity)\<close>: the entity is given by its eid and its current mask.\<close>

definition onComponentAddOrRemove :: "nat \<Rightarrow> Mask \<Rightarrow> Group \<Rightarrow> Group" where
  "onComponentAddOrRemove e entity_mask g =
     (if isMatch (matcher g) entity_mask
      then g\<lparr>matchEntities := Map_set_key e (matchEntities g),
             entitiesCache := None,
             count := count g + 1\<rparr>
      else if e \<in> set (matchEntities g)
      then g\<lparr>matchEntities := removeAll e (matchEntities g),
             entitiesCache := None,
             count := count g - 1\<rparr>
      else g)"


text \<open>The getter \<open>matchEntities\<close>: the cached array, rebuilt from the Map when it is null.\<close>

definition get_matchEntities :: "Group \<Rightarrow> nat list \<times> Group" where
  "get_matchEntities g =
     (case entitiesCache g of
        None \<Rightarrow> (matchEntities g, g\<lparr>entitiesCache := Some (matchEntities g)\<rparr>)
      | Some c \<Rightarrow> (c, g))"

section \<open>Context, Entity and the module state\<close>

text \<open>
  Objects are referred to by identity: an entity object by its \<open>eid\<close> (assigned once by the
  constructor from the static counter \<open>Entity.eid\<close>, and the key under which the object
  is stored in \<open>entities\<close>), a component instance by a number drawn from
  \<open>next_component\<close> when \<open>new\<close> constructs it. \<open>None\<close> stands for \<open>null\<close> and
  \<open>undefined\<close>. The component slots \<open>this[ctor.compName]\<close> are the list \<open>props\<close>; a slot
  set to null is removed from it. \<open>e_context\<close> tells whether \<open>this.context\<close> is set.
\<close>

record Entity =
  e_mask :: Mask
  compTid2Ctor :: "(nat \<times> ctor) list"
  e_context :: bool
  props :: "(string \<times> nat) list"

text \<open>A subscriber \<open>group.onComponentAddOrRemove.bind(group)\<close> is the key of its group in
  \<open>groups\<close>. \<open>componentTypes\<close> is the array \<open>componentConstructors\<close> itself (the registry).\<close>

record Context =
  componentPools :: "nat option list list"
  entityPool :: "nat list"
  eid2Entity :: "nat list"
  totalComponents :: nat
  componentAddOrRemove :: "string list list"
  groups :: "(string \<times> Group) list"

text \<open>The constructor of Context. The check stands after the loop that fills the pools; a
  constructor that throws yields no object.\<close>

definition Context_new :: "Registry \<Rightarrow> error + Context" where
  "Context_new reg =
     (let n = length (componentConstructors reg)
      in if n > 64 then Inl TooManyComponents
         else Inr \<lparr>componentPools = replicate n [], entityPool = [], eid2Entity = [],
                   totalComponents = n, componentAddOrRemove = replicate n [], groups = []\<rparr>)"

text \<open>The constructor of the first variant of Context in the sources (entity flags of two
  30-bit numbers): it takes the constructors as an argument and its bound is 60. Its
  fields are the same but for the entity constructor it stores; its groups start empty.\<close>

definition Context_new_first :: "ctor list \<Rightarrow> error + Context" where
  "Context_new_first cs =
     (let n = length cs
      in if n > 60 then Inl TooManyComponents
         else Inr \<lparr>componentPools = replicate n [], entityPool = [], eid2Entity = [],
                   totalComponents = n, componentAddOrRemove = replicate n [], groups = []\<rparr>)"

text \<open>The state of the module: the registry, the singleton cache \<open>tid2comp\<close>, the exported
  \<open>context\<close> (the field \<open>ecs_context\<close>), the entity objects, the two allocation
  counters, and two traces: the warnings written to the console and the calls of
  \<open>broadcastComponentAddOrRemove\<close> (entity, component type), oldest first.\<close>

record World =
  registry :: Registry
  tid2comp :: "(nat \<times> nat option) list"
  ecs_context :: Context
  entities :: "(nat \<times> Entity) list"
  Entity_eid :: nat
  next_component :: nat
  warnings :: "(string \<times> nat) list"
  broadcasts :: "(nat \<times> nat) list"

definition initContext :: "Registry \<Rightarrow> error + World" where
  "initContext reg =
     bnd (Context_new reg) (\<lambda>c.
       Inr \<lparr>registry = reg, tid2comp = [], ecs_context = c, entities = [], Entity_eid = 1,
            next_component = 0, warnings = [], broadcasts = []\<rparr>)"

definition set_entity :: "nat \<Rightarrow> Entity \<Rightarrow> World \<Rightarrow> World" where
  "set_entity e ent w = w\<lparr>entities := AList.update e ent (entities w)\<rparr>"

text \<open>\<open>createEntity\<close>: the last entity of the pool, or a new one.\<close>

definition createEntity :: "World \<Rightarrow> nat \<times> World" where
  "createEntity w =
     (let (e, w1) =
            (if entityPool (ecs_context w) = []
             then (Entity_eid w,
                   set_entity (Entity_eid w)
                     \<lparr>e_mask = Mask_new (compTid (registry w)), compTid2Ctor = [],
                      e_context = False, props = []\<rparr>
                     (w\<lparr>Entity_eid := Entity_eid w + 1\<rparr>))
             else (last (entityPool (ecs_context w)),
                   w\<lparr>ecs_context := (ecs_context w)\<lparr>entityPool := butlast (entityPool (ecs_context w))\<rparr>\<rparr>));
          w2 = w1\<lparr>entities := AList.map_entry e (\<lambda>ent. ent\<lparr>e_context := True\<rparr>) (entities w1)\<rparr>
      in (e, w2\<lparr>ecs_context := (ecs_context w2)\<lparr>eid2Entity := Map_set_key e (eid2Entity (ecs_context w2))\<rparr>\<rparr>))"

text \<open>\<open>createComponent\<close>: \<open>componentPools[ctor.tid].pop() || new componentTypes[ctor.tid]\<close>.
  A null that was pushed on the pool is popped and a new instance is constructed.\<close>

definition new_component :: "ctor \<Rightarrow> World \<Rightarrow> error + (nat \<times> World)" where
  "new_component c w =
     (if tid c < length (componentConstructors (registry w))
      then Inr (next_component w, w\<lparr>next_component := next_component w + 1\<rparr>)
      else Inl TypeError)"

definition createComponent :: "ctor \<Rightarrow> World \<Rightarrow> error + (nat \<times> World)" where
  "createComponent c w =
     (if tid c < length (componentPools (ecs_context w))
      then (let pool = componentPools (ecs_context w) ! tid c
            in if pool = [] then new_component c w
               else (let w1 = w\<lparr>ecs_context := (ecs_context w)
                                 \<lparr>componentPools := (componentPools (ecs_context w))[tid c := butlast pool]\<rparr>\<rparr>
                     in case last pool of
                          Some component \<Rightarrow> Inr (component, w1)
                        | None \<Rightarrow> new_component c w1))
      else Inl TypeError)"

definition putComponent :: "nat \<Rightarrow> nat option \<Rightarrow> World \<Rightarrow> error + World" where
  "putComponent componentTypeId component w =
     (if componentTypeId < length (componentPools (ecs_context w))
      then Inr (w\<lparr>ecs_context := (ecs_context w)
                   \<lparr>componentPools := (componentPools (ecs_context w))
                       [componentTypeId := componentPools (ecs_context w) ! componentTypeId @ [component]]\<rparr>\<rparr>)
      else Inl TypeError)"

text \<open>The subscribers of the type are called from the last registered to the first, each
  with the entity (its eid and its mask as it is now); then the singleton of the type is
  dropped from the cache.\<close>

definition notify :: "nat \<Rightarrow> Mask \<Rightarrow> string list \<Rightarrow> (string \<times> Group) list \<Rightarrow> (string \<times> Group) list" where
  "notify e m events gs = fold (\<lambda>k. AList.map_entry k (onComponentAddOrRemove e m)) (rev events) gs"

definition broadcastComponentAddOrRemove :: "nat \<Rightarrow> Mask \<Rightarrow> nat \<Rightarrow> World \<Rightarrow> error + World" where
  "broadcastComponentAddOrRemove e m componentTypeId w =
     (if componentTypeId < length (componentAddOrRemove (ecs_context w))
      then Inr (w\<lparr>ecs_context := (ecs_context w)
                     \<lparr>groups := notify e m (componentAddOrRemove (ecs_context w) ! componentTypeId)
                                  (groups (ecs_context w))\<rparr>,
                  tid2comp := AList.delete componentTypeId (tid2comp w),
                  broadcasts := broadcasts w @ [(e, componentTypeId)]\<rparr>)
      else Inl TypeError)"

text \<open>\<open>Context.destroyEntity\<close>. The text of the warning is in Chinese in the source.\<close>

definition Context_destroyEntity :: "nat \<Rightarrow> World \<Rightarrow> World" where
  "Context_destroyEntity e w =
     (if e \<in> set (eid2Entity (ecs_context w))
      then w\<lparr>ecs_context := (ecs_context w)\<lparr>entityPool := entityPool (ecs_context w) @ [e],
                                    eid2Entity := removeAll e (eid2Entity (ecs_context w))\<rparr>\<rparr>
      else w\<lparr>warnings := warnings w @ [(''entity not created by createEntity or destroyed twice'', e)]\<rparr>)"

text \<open>\<open>Entity.remove\<close>. An eid that names no entity object is not a value of the program;
  the operations answer it with TypeError.\<close>

definition Entity_remove :: "ctor \<Rightarrow> nat \<Rightarrow> World \<Rightarrow> error + World" where
  "Entity_remove c e w =
     (case map_of (entities w) e of
        None \<Rightarrow> Inl TypeError
      | Some ent \<Rightarrow>
          if Mask_has (e_mask ent) (tid c) then
            if \<not> e_context ent then Inl TypeError
            else
              bnd (putComponent (tid c) (map_of (props ent) (compName c)) w) (\<lambda>w1.
                let ent1 = ent\<lparr>props := AList.delete (compName c) (props ent),
                               e_mask := Mask_delete (e_mask ent) (tid c)\<rparr>
                in bnd (broadcastComponentAddOrRemove e (e_mask ent1) (tid c) (set_entity e ent1 w1)) (\<lambda>w2.
                     Inr (set_entity e
                            (ent1\<lparr>compTid2Ctor := AList.delete (tid c) (compTid2Ctor ent1)\<rparr>) w2)))
          else Inr w)"

text \<open>\<open>Entity.add\<close>; the result is the component returned (\<open>None\<close> for the bare
  \<open>return\<close> of a destroyed entity) and the new state.\<close>

definition Entity_add :: "ctor \<Rightarrow> nat \<Rightarrow> World \<Rightarrow> error + (nat option \<times> World)" where
  "Entity_add c e w =
     (case map_of (entities w) e of
        None \<Rightarrow> Inl TypeError
      | Some ent \<Rightarrow>
          if \<not> e_context ent
          then Inr (None, w\<lparr>warnings := warnings w @ [(''entity already destroyed.'', e)]\<rparr>)
          else
            bnd (if Mask_has (e_mask ent) (tid c) then Entity_remove c e w else Inr w) (\<lambda>w1.
              case map_of (entities w1) e of
                None \<Rightarrow> Inl TypeError
              | Some ent1 \<Rightarrow>
                  bnd (createComponent c (set_entity e (ent1\<lparr>e_mask := Mask_set (e_mask ent1) (tid c)\<rparr>) w1))
                    (\<lambda>(component, w2).
                      let ent2 = ent1\<lparr>e_mask := Mask_set (e_mask ent1) (tid c),
                                     props := AList.update (compName c) component (props ent1),
                                     compTid2Ctor := AList.update (tid c) c (compTid2Ctor ent1)\<rparr>
                      in bnd (broadcastComponentAddOrRemove e (e_mask ent2) (tid c) (set_entity e ent2 w2))
                           (\<lambda>w3. Inr (Some component, w3)))))"

text \<open>\<open>Entity.get\<close> and \<open>Entity.has\<close>.\<close>

definition Entity_get :: "ctor \<Rightarrow> nat \<Rightarrow> World \<Rightarrow> nat option" where
  "Entity_get c e w =
     (case map_of (entities w) e of None \<Rightarrow> None | Some ent \<Rightarrow> map_of (props ent) (compName c))"

definition Entity_has :: "ctor \<Rightarrow> nat \<Rightarrow> World \<Rightarrow> bool" where
  "Entity_has c e w = (Entity_get c e w \<noteq> None)"

text \<open>The loop of \<open>Entity.destroy\<close> over \<open>compTid2Ctor.values()\<close>.\<close>

fun destroy_loop :: "ctor list \<Rightarrow> nat \<Rightarrow> World \<Rightarrow> error + World" where
  "destroy_loop [] e w = Inr w"
| "destroy_loop (c # cs) e w =
     (case map_of (entities w) e of
        None \<Rightarrow> Inl TypeError
      | Some ent \<Rightarrow>
          let ent1 = ent\<lparr>e_mask := Mask_delete (e_mask ent) (tid c)\<rparr>
          in if \<not> e_context ent1 then Inl TypeError
             else bnd (broadcastComponentAddOrRemove e (e_mask ent1) (tid c) (set_entity e ent1 w)) (\<lambda>w1.
                    destroy_loop cs e
                      (set_entity e (ent1\<lparr>props := AList.delete (compName c) (props ent1)\<rparr>) w1)))"

definition Entity_destroy :: "nat \<Rightarrow> World \<Rightarrow> error + World" where
  "Entity_destroy e w =
     (case map_of (entities w) e of
        None \<Rightarrow> Inl TypeError
      | Some ent \<Rightarrow>
          bnd (destroy_loop (map snd (compTid2Ctor ent)) e w) (\<lambda>w1.
            case map_of (entities w1) e of
              None \<Rightarrow> Inl TypeError
            | Some ent1 \<Rightarrow>
                let ent2 = ent1\<lparr>compTid2Ctor := [], e_mask := Mask_clear (e_mask ent1)\<rparr>
                in if \<not> e_context ent2 then Inl TypeError
                   else Inr (set_entity e (ent2\<lparr>e_context := False\<rparr>)
                               (Context_destroyEntity e (set_entity e ent2 w1)))))"


fun add_all :: "ctor list \<Rightarrow> nat \<Rightarrow> World \<Rightarrow> error + World" where
  "add_all [] e w = Inr w"
| "add_all (c # cs) e w = bnd (Entity_add c e w) (\<lambda>(_, w1). add_all cs e w1)"

definition createEntityWithComps :: "ctor list \<Rightarrow> World \<Rightarrow> error + (nat \<times> World)" where
  "createEntityWithComps cs w =
     (let (e, w1) = createEntity w in bnd (add_all cs e w1) (\<lambda>w2. Inr (e, w2)))"


text \<open>\<open>createGroup\<close>: the result is the group, named by its key.\<close>

fun subscribe :: "nat list \<Rightarrow> string \<Rightarrow> string list list \<Rightarrow> error + string list list" where
  "subscribe [] key subs = Inr subs"
| "subscribe (i # careComponentTypeIds) key subs =
     (if i < length subs then subscribe careComponentTypeIds key (subs[i := subs ! i @ [key]])
      else Inl TypeError)"

definition createGroup :: "Matcher \<Rightarrow> string \<Rightarrow> World \<Rightarrow> error + (string \<times> World)" where
  "createGroup m systemType w =
     (let key = systemType @ ''_'' @ getKey m
      in case map_of (groups (ecs_context w)) key of
           Some g \<Rightarrow> Inr (key, w)
         | None \<Rightarrow>
             bnd (subscribe (m_indices m) key (componentAddOrRemove (ecs_context w))) (\<lambda>subs.
               Inr (key, w\<lparr>ecs_context := (ecs_context w)
                              \<lparr>groups := groups (ecs_context w) @ [(key, Group_new m)],
                               componentAddOrRemove := subs\<rparr>\<rparr>)))"

section \<open>Systems and the root system\<close>

text \<open>
  A system holds its group (and an RExecuteSystem its \<open>rGroup\<close>) by key. The abstract
  methods \<open>update\<close> and \<open>entityEnter\<close> of the systems are a parameter: given the place of
  the system in \<open>executeSystemFlows\<close>, the method called and the entities passed, what
  the user's code does to the state. Every call is appended to a trace. The frame time
  \<open>dt\<close> is only stored and is left out. AutoDestroyEntityReactiveSystem is not part of
  this model.
\<close>

datatype ISystem =
    ExecuteSystem (group: string)
  | ReactiveSystem (group: string)
  | RExecuteSystem (group: string) (rGroup: string)




definition ExecuteSystem_new :: "Matcher \<Rightarrow> World \<Rightarrow> error + (ISystem \<times> World)" where
  "ExecuteSystem_new filter_m w =
     bnd (createGroup filter_m ''e'' w) (\<lambda>(k, w1). Inr (ExecuteSystem k, w1))"


definition RExecuteSystem_new :: "Matcher \<Rightarrow> World \<Rightarrow> error + (ISystem \<times> World)" where
  "RExecuteSystem_new filter_m w =
     bnd (createGroup filter_m ''e'' w) (\<lambda>(k, w1).
       bnd (createGroup filter_m ''r'' w1) (\<lambda>(r, w2). Inr (RExecuteSystem k r, w2)))"


definition group_count :: "string \<Rightarrow> World \<Rightarrow> int" where
  "group_count k w = (case map_of (groups (ecs_context w)) k of None \<Rightarrow> 0 | Some g \<Rightarrow> count g)"






section \<open>Observations and invariants\<close>

text \<open>What the examples and the theorems read off a state.\<close>

definition pool_of :: "ctor \<Rightarrow> World \<Rightarrow> nat option list" where
  "pool_of c w = componentPools (ecs_context w) ! tid c"

definition group_members :: "string \<Rightarrow> World \<Rightarrow> nat list" where
  "group_members k w = (case map_of (groups (ecs_context w)) k of None \<Rightarrow> [] | Some g \<Rightarrow> matchEntities g)"

definition entity_mask :: "nat \<Rightarrow> World \<Rightarrow> Mask" where
  "entity_mask e w = (case map_of (entities w) e of None \<Rightarrow> [] | Some ent \<Rightarrow> e_mask ent)"

text \<open>A rule is well formed when every bit of its mask is one of its indices, as the
  constructor of BaseOf leaves it; a matcher when its rules are.\<close>

definition BaseOf_ok :: "BaseOf \<Rightarrow> bool" where
  "BaseOf_ok r =
     list_all (\<lambda>n. \<not> Mask_has (r_mask r) n \<or> n \<in> set (indices r)) [0..<32 * length (r_mask r)]"

definition Matcher_ok :: "Matcher \<Rightarrow> bool" where
  "Matcher_ok m = list_all BaseOf_ok (rules m)"

text \<open>A group is registered when it is in the registry of groups under the key, its
  matcher is well formed, and its key is among the subscribers of every component type of
  its matcher's indices: the state \<open>createGroup\<close> leaves.\<close>

definition registered :: "string \<Rightarrow> World \<Rightarrow> bool" where
  "registered k w =
     (case map_of (groups (ecs_context w)) k of
        None \<Rightarrow> False
      | Some g \<Rightarrow>
          Matcher_ok (matcher g) \<and>
          list_all (\<lambda>t. t < length (componentAddOrRemove (ecs_context w)) \<and>
                        k \<in> set (componentAddOrRemove (ecs_context w) ! t))
            (m_indices (matcher g)))"

text \<open>The membership of the entity in the group agrees with the matcher on the entity's
  current mask.\<close>

definition consistent :: "string \<Rightarrow> nat \<Rightarrow> World \<Rightarrow> bool" where
  "consistent k e w =
     (case map_of (groups (ecs_context w)) k of
        None \<Rightarrow> False
      | Some g \<Rightarrow> (e \<in> set (matchEntities g)) = isMatch (matcher g) (entity_mask e w))"




text \<open>The invariant of an entity that \<open>add\<close> and \<open>remove\<close> keep: \<open>compTid2Ctor\<close> maps a
  type id to a constructor of that id, and every bit of the mask has an entry in it.\<close>

definition Entity_ok :: "Entity \<Rightarrow> bool" where
  "Entity_ok ent =
     (list_all (\<lambda>p. tid (snd p) = fst p) (compTid2Ctor ent) \<and>
      list_all (\<lambda>t. \<not> Mask_has (e_mask ent) t \<or> t \<in> fst ` set (compTid2Ctor ent))
        [0..<32 * length (e_mask ent)])"

text \<open>The entries of \<open>compTid2Ctor\<close> of an entity.\<close>

definition entity_ctors :: "nat \<Rightarrow> World \<Rightarrow> (nat \<times> ctor) list" where
  "entity_ctors e w = (case map_of (entities w) e of None \<Rightarrow> [] | Some ent \<Rightarrow> compTid2Ctor ent)"



text \<open>The cache of a group is null or the array of its current members: every change of
  the membership sets it to null.\<close>

definition cache_ok :: "Group \<Rightarrow> bool" where
  "cache_ok g = (case entitiesCache g of None \<Rightarrow> True | Some c \<Rightarrow> c = matchEntities g)"






section \<open>Example programs\<close>

text \<open>Two registered component types, as in the scenarios of the specification.\<close>

definition Position :: ctor where
  "Position = \<lparr>tid = 0, compName = ''Position''\<rparr>"

definition Velocity :: ctor where
  "Velocity = \<lparr>tid = 1, compName = ''Velocity''\<rparr>"

definition registry2 :: Registry where
  "registry2 = \<lparr>compTid = 2, componentConstructors = [Position, Velocity]\<rparr>"

text \<open>The registry after \<open>n\<close> classes were registered, named by their numbers.\<close>

definition registry_of :: "nat \<Rightarrow> Registry" where
  "registry_of n =
     \<lparr>compTid = n, componentConstructors = map (\<lambda>i. \<lparr>tid = i, compName = show_nat i\<rparr>) [0..<n]\<rparr>"

text \<open>An entity with a Position: \<open>createEntityWithComps(Position)\<close> on a new context.\<close>

definition ex_live :: "error + (nat \<times> World)" where
  "ex_live = bnd (initContext registry2) (createEntityWithComps [Position])"

text \<open>\<open>e.destroy()\<close>, and \<open>e.destroy()\<close> once more.\<close>

definition ex_destroyed :: "error + (nat \<times> World)" where
  "ex_destroyed = bnd ex_live (\<lambda>(e, w). bnd (Entity_destroy e w) (\<lambda>w1. Inr (e, w1)))"

definition ex_destroyed_twice :: "error + World" where
  "ex_destroyed_twice = bnd ex_destroyed (\<lambda>(e, w). Entity_destroy e w)"

text \<open>\<open>e.remove(Position)\<close> instead of \<open>e.destroy()\<close>.\<close>

definition ex_removed :: "error + (nat \<times> World)" where
  "ex_removed = bnd ex_live (\<lambda>(e, w). bnd (Entity_remove Position e w) (\<lambda>w1. Inr (e, w1)))"

text \<open>A group over \<open>Matcher.anyOf(Position, Velocity)\<close>; an entity that gets a Position and
  then a Velocity. The result is the group's key, the entity and the state.\<close>

definition ex_anyOf :: "error + (string \<times> nat \<times> World)" where
  "ex_anyOf =
     bnd (initContext registry2) (\<lambda>w.
       bnd (createGroup (anyOf registry2 [Position, Velocity] (Matcher [])) ''e'' w) (\<lambda>(k, w1).
         bnd (createEntityWithComps [Position, Velocity] w1) (\<lambda>(e, w2). Inr (k, e, w2))))"

definition ex_anyOf_group :: "error + (nat list \<times> int)" where
  "ex_anyOf_group = bnd ex_anyOf (\<lambda>(k, e, w). Inr (group_members k w, group_count k w))"























text \<open>\<open>Matcher.onlyOf(Position)\<close> against an entity with a Position, and against an entity
  with a Position and a Velocity.\<close>

definition ex_onlyOf_Position :: "error + (bool \<times> bool)" where
  "ex_onlyOf_Position =
     bnd (initContext registry2) (\<lambda>w.
       bnd (createEntityWithComps [Position] w) (\<lambda>(e1, w1).
         bnd (createEntityWithComps [Position, Velocity] w1) (\<lambda>(e2, w2).
           Inr (isMatch (onlyOf registry2 [Position] (Matcher [])) (entity_mask e1 w2),
                isMatch (onlyOf registry2 [Position] (Matcher [])) (entity_mask e2 w2)))))"

text \<open>32 registered types; the type with id 31; an entity that holds exactly this type,
  and \<open>Matcher.onlyOf\<close> of the type. The observation: the entries of the entity, the bits
  of its mask, and the answer of \<open>isMatch\<close>.\<close>

definition T31 :: ctor where
  "T31 = \<lparr>tid = 31, compName = show_nat 31\<rparr>"

definition ex_onlyOf_T31 :: "error + ((nat \<times> ctor) list \<times> nat list \<times> bool)" where
  "ex_onlyOf_T31 =
     bnd (initContext (registry_of 32)) (\<lambda>w.
       bnd (createEntityWithComps [T31] w) (\<lambda>(e, w1).
         Inr (entity_ctors e w1,
              filter (Mask_has (entity_mask e w1)) [0..<32],
              isMatch (onlyOf (registry_of 32) [T31] (Matcher [])) (entity_mask e w1))))"







section \<open>Mask algebra\<close>

lemma and_exp_eq_0:
  assumes "n < 32" shows "((w :: 32 word) AND 2 ^ n = 0) = (\<not> bit w n)"
proof
  assume "w AND 2 ^ n = 0"
  then have "\<not> bit (w AND 2 ^ n) n" by simp
  then show "\<not> bit w n" using assms by (simp add: bit_and_iff bit_exp_iff)
next
  assume h: "\<not> bit w n"
  show "w AND 2 ^ n = 0"
    by (rule bit_eqI) (use h in \<open>auto simp: bit_and_iff bit_exp_iff\<close>)
qed

lemma Mask_has_iff: "Mask_has m n \<longleftrightarrow> n div 32 < length m \<and> bit (m ! (n div 32)) (n mod 32)"
  unfolding Mask_has_def Mask_at_def
  by (simp add: and_exp_eq_0)

lemma Mask_has_new [simp]: "\<not> Mask_has (Mask_new c) n"
  by (simp add: Mask_has_iff Mask_new_def)

lemma Mask_has_clear [simp]: "\<not> Mask_has (Mask_clear m) n"
  by (simp add: Mask_has_iff Mask_clear_def)

lemma length_Mask_new [simp]: "length (Mask_new c) = (c + 31) div 32"
  by (simp add: Mask_new_def)

lemma length_Mask_set [simp]: "length (Mask_set m n) = length m"
  by (simp add: Mask_set_def)

lemma length_Mask_delete [simp]: "length (Mask_delete m n) = length m"
  by (simp add: Mask_delete_def)

lemma length_Mask_clear [simp]: "length (Mask_clear m) = length m"
  by (simp add: Mask_clear_def)

lemma divmod32_eq: "(a::nat) div 32 = b div 32 \<Longrightarrow> a mod 32 = b mod 32 \<Longrightarrow> a = b"
  by (metis div_mult_mod_eq)

lemma Mask_has_set: "Mask_has (Mask_set m n) k \<longleftrightarrow> Mask_has m k \<or> (k = n \<and> n div 32 < length m)"
  unfolding Mask_has_iff Mask_set_def
  by (auto simp: nth_list_update bit_or_iff bit_exp_iff dest: divmod32_eq)

lemma Mask_has_delete: "Mask_has (Mask_delete m n) k \<longleftrightarrow> Mask_has m k \<and> k \<noteq> n"
  unfolding Mask_has_iff Mask_delete_def
  by (auto simp: nth_list_update bit_and_iff bit_not_iff bit_exp_iff dest: divmod32_eq)

lemma Mask_or_iff: "Mask_or a b \<longleftrightarrow> (\<exists>n. Mask_has a n \<and> Mask_has b n)"
proof
  assume "Mask_or a b"
  then obtain i where i: "i < length a" "(a ! i) AND Mask_at b i \<noteq> 0"
    by (auto simp: Mask_or_def list_ex_iff)
  then obtain j where j: "bit ((a ! i) AND Mask_at b i) j"
    by (auto simp: bit_eq_iff)
  then have j32: "j < 32" by (auto dest: bit_imp_le_length)
  from j have "bit (a ! i) j" "bit (Mask_at b i) j" by (simp_all add: bit_and_iff)
  then have "Mask_has a (32 * i + j)" "Mask_has b (32 * i + j)"
    using i j32 by (auto simp: Mask_has_iff Mask_at_def split: if_splits)
  then show "\<exists>n. Mask_has a n \<and> Mask_has b n" by blast
next
  assume "\<exists>n. Mask_has a n \<and> Mask_has b n"
  then obtain n where n: "Mask_has a n" "Mask_has b n" by blast
  then have "n div 32 < length a" "bit ((a ! (n div 32)) AND Mask_at b (n div 32)) (n mod 32)"
    by (auto simp: Mask_has_iff Mask_at_def bit_and_iff)
  then have "n div 32 < length a" "(a ! (n div 32)) AND Mask_at b (n div 32) \<noteq> 0"
    by auto
  then show "Mask_or a b" by (auto simp: Mask_or_def list_ex_iff)
qed

text \<open>The signed comparison of \<open>and\<close>: equality needs bit 31 of the left word clear.\<close>

lemma sint_and_eq_uint:
  "(sint ((x::32 word) AND y) = uint x) \<longleftrightarrow> (\<not> bit x 31 \<and> x AND y = x)"
proof
  assume h: "sint (x AND y) = uint x"
  have b: "bit (sint (x AND y)) n = bit (uint x) n" for n using h by simp
  have "\<not> bit (x AND y) 31" using b[of 32] by (simp add: bit_sint_iff bit_uint_iff)
  moreover have "bit (x AND y) n = bit x n" for n
    using b[of n] by (cases "n < 32") (auto simp: bit_sint_iff bit_uint_iff dest: bit_imp_le_length)
  ultimately show "\<not> bit x 31 \<and> x AND y = x" by (auto simp: bit_eq_iff)
next
  assume h: "\<not> bit x 31 \<and> x AND y = x"
  then have "sint x = uint x"
    by (intro bit_eqI) (auto simp: bit_sint_iff bit_uint_iff dest: bit_imp_le_length)
  with h show "sint (x AND y) = uint x" by simp
qed

lemma Mask_and_iff:
  "Mask_and a b \<longleftrightarrow> (\<forall>n. Mask_has a n \<longrightarrow> Mask_has b n) \<and> (\<forall>i<length a. \<not> bit (a ! i) 31)"
proof -
  have w: "(x AND y = x) \<longleftrightarrow> (\<forall>j<32. bit x j \<longrightarrow> bit y j)" for x y :: "32 word"
    by (auto simp: bit_eq_iff bit_and_iff dest: bit_imp_le_length)
  have "Mask_and a b \<longleftrightarrow> (\<forall>i<length a. \<not> bit (a ! i) 31 \<and> (\<forall>j<32. bit (a ! i) j \<longrightarrow> bit (Mask_at b i) j))"
    by (auto simp: Mask_and_def list_all_iff sint_and_eq_uint w)
  also have "\<dots> \<longleftrightarrow> (\<forall>n. Mask_has a n \<longrightarrow> Mask_has b n) \<and> (\<forall>i<length a. \<not> bit (a ! i) 31)"
  proof (intro iffI conjI allI impI)
    fix n assume h: "\<forall>i<length a. \<not> bit (a ! i) 31 \<and> (\<forall>j<32. bit (a ! i) j \<longrightarrow> bit (Mask_at b i) j)"
      and n: "Mask_has a n"
    from n have "n div 32 < length a" "bit (a ! (n div 32)) (n mod 32)" by (simp_all add: Mask_has_iff)
    with h have "bit (Mask_at b (n div 32)) (n mod 32)" by simp
    then show "Mask_has b n" by (auto simp: Mask_has_iff Mask_at_def split: if_splits)
  next
    fix i assume "\<forall>i<length a. \<not> bit (a ! i) 31 \<and> (\<forall>j<32. bit (a ! i) j \<longrightarrow> bit (Mask_at b i) j)" "i < length a"
    then show "\<not> bit (a ! i) 31" by simp
  next
    fix i assume h: "(\<forall>n. Mask_has a n \<longrightarrow> Mask_has b n) \<and> (\<forall>i<length a. \<not> bit (a ! i) 31)" and i: "i < length a"
    then show "\<not> bit (a ! i) 31" by simp
  next
    fix i j assume h: "(\<forall>n. Mask_has a n \<longrightarrow> Mask_has b n) \<and> (\<forall>i<length a. \<not> bit (a ! i) 31)" and i: "i < length a"
      and j: "j < 32" "bit (a ! i) j"
    then have "Mask_has a (32 * i + j)" by (simp add: Mask_has_iff)
    with h have "Mask_has b (32 * i + j)" by blast
    then show "bit (Mask_at b i) j" using j by (simp add: Mask_has_iff Mask_at_def)
  qed
  finally show ?thesis .
qed

section \<open>Frame lemmas\<close>

lemma bnd_Inr_iff: "bnd m f = Inr y \<longleftrightarrow> (\<exists>x. m = Inr x \<and> f x = Inr y)"
  by (cases m) (simp_all add: bnd_def)

lemma bnd_simps [simp]: "bnd (Inl e) f = Inl e" "bnd (Inr x) f = f x"
  by (simp_all add: bnd_def)

lemma map_of_set_entity [simp]: "map_of (entities (set_entity e ent w)) = (map_of (entities w))(e \<mapsto> ent)"
  by (simp add: set_entity_def update_conv')

lemma set_entity_frame [simp]:
  "ecs_context (set_entity e ent w) = ecs_context w"
  "registry (set_entity e ent w) = registry w"
  "tid2comp (set_entity e ent w) = tid2comp w"
  "Entity_eid (set_entity e ent w) = Entity_eid w"
  "next_component (set_entity e ent w) = next_component w"
  "warnings (set_entity e ent w) = warnings w"
  "broadcasts (set_entity e ent w) = broadcasts w"
  by (simp_all add: set_entity_def)

lemma broadcast_Inr:
  "broadcastComponentAddOrRemove e m t w = Inr w' \<longleftrightarrow>
     t < length (componentAddOrRemove (ecs_context w)) \<and>
     w' = w\<lparr>ecs_context := (ecs_context w)
                     \<lparr>groups := notify e m (componentAddOrRemove (ecs_context w) ! t)
                                  (groups (ecs_context w))\<rparr>,
                  tid2comp := AList.delete t (tid2comp w),
                  broadcasts := broadcasts w @ [(e, t)]\<rparr>"
  by (auto simp: broadcastComponentAddOrRemove_def)

lemma destroy_loop_frame:
  "destroy_loop cs e w = Inr w' \<Longrightarrow>
     componentPools (ecs_context w') = componentPools (ecs_context w) \<and>
     entityPool (ecs_context w') = entityPool (ecs_context w) \<and>
     eid2Entity (ecs_context w') = eid2Entity (ecs_context w) \<and>
     (\<forall>e'. e' \<noteq> e \<longrightarrow> map_of (entities w') e' = map_of (entities w) e') \<and>
     (\<forall>ent. map_of (entities w) e = Some ent \<longrightarrow>
        (\<exists>ent'. map_of (entities w') e = Some ent' \<and> e_context ent' = e_context ent
            \<and> compTid2Ctor ent' = compTid2Ctor ent))"
proof (induction cs arbitrary: w)
  case Nil
  then show ?case by simp
next
  case (Cons c cs)
  from Cons.prems obtain ent where ent: "map_of (entities w) e = Some ent"
    by (auto split: option.splits)
  let ?ent1 = "ent\<lparr>e_mask := Mask_delete (e_mask ent) (tid c)\<rparr>"
  from Cons.prems ent obtain w1 where
    w1: "broadcastComponentAddOrRemove e (e_mask ?ent1) (tid c) (set_entity e ?ent1 w) = Inr w1"
    and rest: "destroy_loop cs e (set_entity e (?ent1\<lparr>props := AList.delete (compName c) (props ?ent1)\<rparr>) w1) = Inr w'"
    by (auto simp: Let_def bnd_Inr_iff split: if_splits)
  note ih = Cons.IH[OF rest]
  from w1 have f: "componentPools (ecs_context w1) = componentPools (ecs_context w)"
     "entityPool (ecs_context w1) = entityPool (ecs_context w)"
     "eid2Entity (ecs_context w1) = eid2Entity (ecs_context w)"
     "entities w1 = entities (set_entity e ?ent1 w)"
    by (auto simp: broadcast_Inr)
  show ?case using ih f ent by (auto simp: update_conv' set_entity_def)
qed

lemma Context_destroyEntity_frame [simp]:
  "entities (Context_destroyEntity e w) = entities w"
  "registry (Context_destroyEntity e w) = registry w"
  "tid2comp (Context_destroyEntity e w) = tid2comp w"
  "broadcasts (Context_destroyEntity e w) = broadcasts w"
  "next_component (Context_destroyEntity e w) = next_component w"
  "Entity_eid (Context_destroyEntity e w) = Entity_eid w"
  "componentPools (ecs_context (Context_destroyEntity e w)) = componentPools (ecs_context w)"
  "groups (ecs_context (Context_destroyEntity e w)) = groups (ecs_context w)"
  "componentAddOrRemove (ecs_context (Context_destroyEntity e w)) = componentAddOrRemove (ecs_context w)"
  "totalComponents (ecs_context (Context_destroyEntity e w)) = totalComponents (ecs_context w)"
  by (simp_all add: Context_destroyEntity_def)

lemma Entity_destroy_Inr:
  "Entity_destroy e w = Inr w' \<longleftrightarrow>
     (\<exists>ent w1 ent1. map_of (entities w) e = Some ent \<and>
        destroy_loop (map snd (compTid2Ctor ent)) e w = Inr w1 \<and>
        map_of (entities w1) e = Some ent1 \<and> e_context ent1 \<and>
        w' = set_entity e (ent1\<lparr>compTid2Ctor := [], e_mask := Mask_clear (e_mask ent1), e_context := False\<rparr>)
               (Context_destroyEntity e
                  (set_entity e (ent1\<lparr>compTid2Ctor := [], e_mask := Mask_clear (e_mask ent1)\<rparr>) w1)))"
proof (cases "map_of (entities w) e")
  case None
  then show ?thesis by (simp add: Entity_destroy_def)
next
  case (Some ent)
  show ?thesis
  proof (cases "destroy_loop (map snd (compTid2Ctor ent)) e w")
    case (Inl x)
    with Some show ?thesis by (simp add: Entity_destroy_def)
  next
    case (Inr w1)
    with Some show ?thesis
      by (cases "map_of (entities w1) e") (auto simp: Entity_destroy_def Let_def split: if_splits)
  qed
qed

lemma Entity_destroy_InrE:
  assumes "Entity_destroy e w = Inr w'"
  obtains ent w1 ent1 where "map_of (entities w) e = Some ent"
    and "destroy_loop (map snd (compTid2Ctor ent)) e w = Inr w1"
    and "map_of (entities w1) e = Some ent1" and "e_context ent1"
    and "w' = set_entity e (ent1\<lparr>compTid2Ctor := [], e_mask := Mask_clear (e_mask ent1), e_context := False\<rparr>)
               (Context_destroyEntity e
                  (set_entity e (ent1\<lparr>compTid2Ctor := [], e_mask := Mask_clear (e_mask ent1)\<rparr>) w1))"
  using assms unfolding Entity_destroy_Inr by (elim exE conjE) (rule that)

text \<open>In every state, a \<open>destroy()\<close> that follows a successful \<open>destroy()\<close> of the same
  entity raises; and \<open>destroy()\<close> leaves the component pools as they are.\<close>

lemma Entity_destroy_twice:
  assumes "Entity_destroy e w = Inr w'" shows "Entity_destroy e w' = Inl TypeError"
proof -
  from assms obtain ent1 w2 where
    "w' = set_entity e (ent1\<lparr>compTid2Ctor := [], e_mask := Mask_clear (e_mask ent1), e_context := False\<rparr>) w2"
    by (rule Entity_destroy_InrE)
  then show ?thesis by (simp add: Entity_destroy_def)
qed

lemma Entity_destroy_pools:
  assumes "Entity_destroy e w = Inr w'"
  shows "componentPools (ecs_context w') = componentPools (ecs_context w)"
proof -
  from assms obtain ent w1 ent1 where "map_of (entities w) e = Some ent"
    and l: "destroy_loop (map snd (compTid2Ctor ent)) e w = Inr w1"
    and "map_of (entities w1) e = Some ent1" and "e_context ent1"
    and w': "w' = set_entity e (ent1\<lparr>compTid2Ctor := [], e_mask := Mask_clear (e_mask ent1), e_context := False\<rparr>)
               (Context_destroyEntity e
                  (set_entity e (ent1\<lparr>compTid2Ctor := [], e_mask := Mask_clear (e_mask ent1)\<rparr>) w1))"
    by (rule Entity_destroy_InrE)
  from w' have "componentPools (ecs_context w') = componentPools (ecs_context w1)" by simp
  with destroy_loop_frame[OF l] show ?thesis by simp
qed

section \<open>Context construction\<close>

lemma Context_new_throws_iff:
  "(Context_new reg = Inl TooManyComponents) = (64 < length (componentConstructors reg))"
  by (simp add: Context_new_def Let_def)

lemma Context_new_first_throws_iff:
  "(Context_new_first cs = Inl TooManyComponents) = (60 < length cs)"
  by (simp add: Context_new_first_def Let_def)

text \<open>
  C4, as stated, at the first variant of the constructor: with 61 registered component
  types, which is not more than 64, the construction throws.
\<close>

theorem C4_first_variant_counterexample:
  "length (componentConstructors (registry_of 61)) = 61 \<and>
   Context_new_first (componentConstructors (registry_of 61)) = Inl TooManyComponents"
  by (simp add: Context_new_first_def registry_of_def)

text \<open>
  C4, amended: the constructor of the Mask-based Context throws the configuration error if
  and only if more than 64 component types are registered, and otherwise returns a context
  (so 65 types fail and 64 succeed); the constructor of the first variant throws if and
  only if more than 60 are registered. Both throw with more than 64.
\<close>

theorem C4_Context_new_bounds:
  "isl (Context_new reg) = (64 < length (componentConstructors reg)) \<and>
   (Context_new reg = Inl TooManyComponents) = (64 < length (componentConstructors reg)) \<and>
   isl (Context_new (registry_of 65)) \<and> \<not> isl (Context_new (registry_of 64)) \<and>
   isl (initContext reg) = (64 < length (componentConstructors reg)) \<and>
   isl (Context_new_first cs) = (60 < length cs) \<and>
   (Context_new_first cs = Inl TooManyComponents) = (60 < length cs)"
  by (simp add: Context_new_def Context_new_first_def initContext_def registry_of_def Let_def)

section \<open>Group count\<close>

lemma renotify_counts_again:
  assumes "isMatch (matcher g) m" and "e \<in> set (matchEntities g)"
  shows "matchEntities (onComponentAddOrRemove e m g) = matchEntities g"
    and "count (onComponentAddOrRemove e m g) = count g + 1"
  using assms by (simp_all add: onComponentAddOrRemove_def Map_set_key_def)

text \<open>
  C2 at a failing input: with a group over \<open>Matcher.anyOf(Position, Velocity)\<close>, an entity
  that is given a Position and then a Velocity is notified to the group twice and matches
  both times. The membership holds the entity once, and \<open>count\<close> is 2: the second
  notification, for an entity already in the set, has incremented it.
\<close>

theorem C2_count_exceeds_members:
  "ex_anyOf_group = Inr ([1], 2)"
  by code_simp

section \<open>Destroying an entity\<close>

text \<open>
  C5 at a failing input: an entity is created with a Position and destroyed, which
  succeeds; the second \<open>destroy()\<close> raises a TypeError, since \<open>this.context\<close> is null
  when \<open>this.context.destroyEntity(this)\<close> is reached. The warning that the claim
  describes is what \<open>Context.destroyEntity\<close> does when it is called twice: the entity is
  pushed once and one warning is logged.
\<close>

theorem C5_second_destroy_raises:
  "\<not> isl ex_destroyed \<and> ex_destroyed_twice = Inl TypeError \<and>
   (case ex_live of Inl _ \<Rightarrow> False
    | Inr (e, w) \<Rightarrow>
        entityPool (ecs_context (Context_destroyEntity e (Context_destroyEntity e w))) = [e] \<and>
        warnings (Context_destroyEntity e (Context_destroyEntity e w)) =
          [(''entity not created by createEntity or destroyed twice'', e)])"
  by code_simp

text \<open>
  C6 at a failing input: the entity 1 holds the Position instance 0. After \<open>destroy()\<close>
  the entity is in the entity pool, out of the index, its mask is empty and its slot is
  empty, but the pool of Position is still empty: the instance was not released. After
  \<open>remove(Position)\<close> the instance is in the pool. \<open>Context.destroyEntity\<close> called on
  the live entity moves it to the entity pool and leaves its mask and its slot as they
  are.
\<close>

theorem C6_destroy_releases_nothing:
  "(case ex_live of Inl _ \<Rightarrow> False
    | Inr (e, w) \<Rightarrow> e = 1 \<and> Entity_get Position e w = Some 0 \<and> pool_of Position w = []) \<and>
   (case ex_destroyed of Inl _ \<Rightarrow> False
    | Inr (e, w) \<Rightarrow> entityPool (ecs_context w) = [e] \<and> eid2Entity (ecs_context w) = [] \<and>
        entity_mask e w = [0] \<and> Entity_get Position e w = None \<and> pool_of Position w = []) \<and>
   (case ex_removed of Inl _ \<Rightarrow> False
    | Inr (e, w) \<Rightarrow> pool_of Position w = [Some 0]) \<and>
   (case ex_live of Inl _ \<Rightarrow> False
    | Inr (e, w) \<Rightarrow>
        entityPool (ecs_context (Context_destroyEntity e w)) = [e] \<and>
        entity_mask e (Context_destroyEntity e w) = [1] \<and>
        Entity_get Position e (Context_destroyEntity e w) = Some 0 \<and>
        pool_of Position (Context_destroyEntity e w) = [])"
  by code_simp

section \<open>Rules and matchers read only their indices\<close>

lemma Mask_has_bound: "Mask_has m n \<Longrightarrow> n < 32 * length m"
  by (auto simp: Mask_has_iff)

lemma BaseOf_ok_iff: "BaseOf_ok r \<longleftrightarrow> (\<forall>n. Mask_has (r_mask r) n \<longrightarrow> n \<in> set (indices r))"
  using Mask_has_bound[of "r_mask r"] by (auto simp: BaseOf_ok_def list_all_iff)

lemma Mask_has_fold_set:
  "Mask_has (fold (\<lambda>t m. Mask_set m t) args m0) n \<longleftrightarrow>
     Mask_has m0 n \<or> (n \<in> set args \<and> n div 32 < length m0)"
  by (induction args arbitrary: m0) (auto simp: Mask_has_set)

lemma set_indices_BaseOf_new [simp]: "set (indices (BaseOf_new n k args)) = set args"
  by (simp add: BaseOf_new_def)

lemma BaseOf_new_simps [simp]: "kind (BaseOf_new n k args) = k"
  "Mask_has (r_mask (BaseOf_new n k args)) t \<longleftrightarrow> t \<in> set args \<and> t div 32 < (n + 31) div 32"
  by (simp_all add: BaseOf_new_def Mask_has_fold_set)

lemma BaseOf_ok_new [simp]: "BaseOf_ok (BaseOf_new n k args)"
  by (simp add: BaseOf_ok_iff)




section \<open>Notifications\<close>



lemma matcher_oCAR [simp]: "matcher (onComponentAddOrRemove e m g) = matcher g"
  by (simp add: onComponentAddOrRemove_def)

lemma member_oCAR [simp]:
  "e \<in> set (matchEntities (onComponentAddOrRemove e m g)) \<longleftrightarrow> isMatch (matcher g) m"
  by (simp add: onComponentAddOrRemove_def Map_set_key_def)


lemma matcher_oCAR_pow [simp]: "matcher ((onComponentAddOrRemove e m ^^ n) g) = matcher g"
  by (induction n) simp_all




section \<open>Adding and removing a component, step by step\<close>




lemma Entity_remove_InrE:
  assumes "Entity_remove c e w = Inr w'"
  obtains (absent) ent where "map_of (entities w) e = Some ent"
      and "\<not> Mask_has (e_mask ent) (tid c)" and "w' = w"
  | (present) ent w1 w2 where "map_of (entities w) e = Some ent"
      and "Mask_has (e_mask ent) (tid c)" and "e_context ent"
      and "putComponent (tid c) (map_of (props ent) (compName c)) w = Inr w1"
      and "broadcastComponentAddOrRemove e (Mask_delete (e_mask ent) (tid c)) (tid c)
             (set_entity e (ent\<lparr>props := AList.delete (compName c) (props ent),
                                e_mask := Mask_delete (e_mask ent) (tid c)\<rparr>) w1) = Inr w2"
      and "w' = set_entity e
                  (ent\<lparr>props := AList.delete (compName c) (props ent),
                       e_mask := Mask_delete (e_mask ent) (tid c),
                       compTid2Ctor := AList.delete (tid c) (compTid2Ctor ent)\<rparr>) w2"
proof (cases "map_of (entities w) e")
  case None
  with assms show ?thesis by (simp add: Entity_remove_def)
next
  case (Some ent)
  show ?thesis
  proof (cases "Mask_has (e_mask ent) (tid c)")
    case False
    with Some assms show ?thesis by (intro absent[of ent]) (simp_all add: Entity_remove_def)
  next
    case True
    with Some assms have ctx: "e_context ent" by (auto simp: Entity_remove_def split: if_splits)
    with Some True assms obtain w1 where
      w1: "putComponent (tid c) (map_of (props ent) (compName c)) w = Inr w1"
      by (auto simp: Entity_remove_def bnd_Inr_iff)
    with Some True ctx assms obtain w2 where
      w2: "broadcastComponentAddOrRemove e (Mask_delete (e_mask ent) (tid c)) (tid c)
             (set_entity e (ent\<lparr>props := AList.delete (compName c) (props ent),
                                e_mask := Mask_delete (e_mask ent) (tid c)\<rparr>) w1) = Inr w2"
      by (auto simp: Entity_remove_def bnd_Inr_iff Let_def)
    with Some True ctx assms w1 have
      "w' = set_entity e
                  (ent\<lparr>props := AList.delete (compName c) (props ent),
                       e_mask := Mask_delete (e_mask ent) (tid c),
                       compTid2Ctor := AList.delete (tid c) (compTid2Ctor ent)\<rparr>) w2"
      by (auto simp: Entity_remove_def Let_def)
    with Some True ctx w1 w2 show ?thesis by (intro present[of ent w1 w2])
  qed
qed

lemma Entity_add_InrE:
  assumes "Entity_add c e w = Inr (r, w')"
  obtains (destroyed) ent where "map_of (entities w) e = Some ent" and "\<not> e_context ent"
      and "r = None" and "w' = w\<lparr>warnings := warnings w @ [(''entity already destroyed.'', e)]\<rparr>"
  | (live) ent w1 ent1 x w2 where "map_of (entities w) e = Some ent" and "e_context ent"
      and "(if Mask_has (e_mask ent) (tid c) then Entity_remove c e w else Inr w) = Inr w1"
      and "map_of (entities w1) e = Some ent1"
      and "createComponent c (set_entity e (ent1\<lparr>e_mask := Mask_set (e_mask ent1) (tid c)\<rparr>) w1) = Inr (x, w2)"
      and "broadcastComponentAddOrRemove e (Mask_set (e_mask ent1) (tid c)) (tid c)
             (set_entity e (ent1\<lparr>e_mask := Mask_set (e_mask ent1) (tid c),
                                 props := AList.update (compName c) x (props ent1),
                                 compTid2Ctor := AList.update (tid c) c (compTid2Ctor ent1)\<rparr>) w2) = Inr w'"
      and "r = Some x"
proof (cases "map_of (entities w) e")
  case None
  with assms show ?thesis by (simp add: Entity_add_def)
next
  case (Some ent)
  show ?thesis
  proof (cases "e_context ent")
    case False
    with Some assms show ?thesis by (intro destroyed[of ent]) (auto simp: Entity_add_def)
  next
    case True
    with Some assms obtain w1 where
      w1: "(if Mask_has (e_mask ent) (tid c) then Entity_remove c e w else Inr w) = Inr w1"
      by (auto simp: Entity_add_def bnd_Inr_iff)
    with Some True assms obtain ent1 where ent1: "map_of (entities w1) e = Some ent1"
      by (auto simp: Entity_add_def split: option.splits)
    with Some True assms w1 obtain x w2 where
      x: "createComponent c (set_entity e (ent1\<lparr>e_mask := Mask_set (e_mask ent1) (tid c)\<rparr>) w1) = Inr (x, w2)"
      by (auto simp: Entity_add_def bnd_Inr_iff)
    with Some True assms w1 ent1 have
      "broadcastComponentAddOrRemove e (Mask_set (e_mask ent1) (tid c)) (tid c)
             (set_entity e (ent1\<lparr>e_mask := Mask_set (e_mask ent1) (tid c),
                                 props := AList.update (compName c) x (props ent1),
                                 compTid2Ctor := AList.update (tid c) c (compTid2Ctor ent1)\<rparr>) w2) = Inr w'"
      "r = Some x"
      by (auto simp: Entity_add_def bnd_Inr_iff Let_def)
    with Some True w1 ent1 x show ?thesis by (intro live[of ent w1 ent1 x w2])
  qed
qed

section \<open>Consistency of a group is kept by add and remove\<close>


lemma entity_mask_set_entity [simp]:
  "entity_mask x (set_entity e ent w) = (if x = e then e_mask ent else entity_mask x w)"
  by (simp add: entity_mask_def)







section \<open>Group consistency\<close>




section \<open>The loop of destroy, seen from a group\<close>

lemma Entity_ok_iff:
  "Entity_ok ent \<longleftrightarrow>
     (\<forall>(t, c) \<in> set (compTid2Ctor ent). tid c = t) \<and>
     (\<forall>t. Mask_has (e_mask ent) t \<longrightarrow> t \<in> fst ` set (compTid2Ctor ent))"
  using Mask_has_bound[of "e_mask ent"]
  by (auto simp: Entity_ok_def list_all_iff)






section \<open>Destroyed entities in groups\<close>



section \<open>What remove and add leave\<close>




section \<open>Adding a type that is present\<close>



section \<open>Replace semantics of add\<close>








section \<open>Creating an entity\<close>

lemma createEntity_frame:
  assumes "createEntity w = (e, w')"
  shows "componentPools (ecs_context w') = componentPools (ecs_context w)"
    "groups (ecs_context w') = groups (ecs_context w)"
    "componentAddOrRemove (ecs_context w') = componentAddOrRemove (ecs_context w)"
    "tid2comp w' = tid2comp w" "registry w' = registry w" "broadcasts w' = broadcasts w"
    "next_component w' = next_component w"
  using assms by (auto simp: createEntity_def Let_def set_entity_def split: if_splits)

lemma createEntity_cases:
  assumes "createEntity w = (e, w')"
  obtains (new) "entityPool (ecs_context w) = []" and "e = Entity_eid w"
      and "map_of (entities w') = (map_of (entities w))(e \<mapsto>
             \<lparr>e_mask = Mask_new (compTid (registry w)), compTid2Ctor = [], e_context = True, props = []\<rparr>)"
      and "Entity_eid w' = Suc (Entity_eid w)" and "entityPool (ecs_context w') = []"
  | (recycled) "entityPool (ecs_context w) \<noteq> []" and "e = last (entityPool (ecs_context w))"
      and "map_of (entities w') = (map_of (entities w))(e :=
             map_option (\<lambda>ent. ent\<lparr>e_context := True\<rparr>) (map_of (entities w) e))"
      and "Entity_eid w' = Entity_eid w"
      and "entityPool (ecs_context w') = butlast (entityPool (ecs_context w))"
proof (cases "entityPool (ecs_context w) = []")
  case True
  show ?thesis
  proof (rule new[OF True])
    show "e = Entity_eid w" using assms True by (auto simp: createEntity_def Let_def)
    then show "map_of (entities w') = (map_of (entities w))(e \<mapsto>
             \<lparr>e_mask = Mask_new (compTid (registry w)), compTid2Ctor = [], e_context = True, props = []\<rparr>)"
      using assms True
      by (auto simp: createEntity_def Let_def map_of_map_entry fun_eq_iff)
    show "Entity_eid w' = Suc (Entity_eid w)" "entityPool (ecs_context w') = []"
      using assms True by (auto simp: createEntity_def Let_def set_entity_def)
  qed
next
  case False
  show ?thesis
  proof (rule recycled[OF False])
    show "e = last (entityPool (ecs_context w))" using assms False by (auto simp: createEntity_def Let_def)
    then show "map_of (entities w') = (map_of (entities w))(e :=
             map_option (\<lambda>ent. ent\<lparr>e_context := True\<rparr>) (map_of (entities w) e))"
      using assms False
      by (auto simp: createEntity_def Let_def map_of_map_entry fun_eq_iff split: option.splits)
    show "Entity_eid w' = Entity_eid w" "entityPool (ecs_context w') = butlast (entityPool (ecs_context w))"
      using assms False by (auto simp: createEntity_def Let_def)
  qed
qed

section \<open>Frames of remove and add; the singleton cache\<close>







section \<open>Singleton eviction\<close>




section \<open>Matching exactly a set of types\<close>

text \<open>The scenario of the specification: \<open>OnlyOf(Position)\<close> matches the entity with
  exactly a Position and not the entity with a Position and a Velocity.\<close>

lemma onlyOf_Position_scenario: "ex_onlyOf_Position = Inr (True, False)"
  by code_simp

text \<open>
  C9 at a failing input: 32 component types are registered and the entity holds exactly
  the type with id 31 (one entry, one bit). \<open>Matcher.onlyOf\<close> of that type does not
  match the entity: in \<open>Mask.and\<close> the conjunction of the two words is the negative
  number \<open>- 2^31\<close> and the word read from the array is \<open>2^31\<close>.
\<close>

theorem C9_onlyOf_rejects_type_31:
  "T31 \<in> set (componentConstructors (registry_of 32)) \<and>
   ex_onlyOf_T31 = Inr ([(31, T31)], [31], False)"
  by code_simp

text \<open>When \<open>onlyOf\<close> is exact.\<close>

lemma bit31_iff_has:
  assumes "i < length m" shows "bit (m ! i) 31 \<longleftrightarrow> Mask_has m (32 * i + 31)"
  using assms by (simp add: Mask_has_iff)

lemma length_fold_Mask_set: "length (fold (\<lambda>t m. Mask_set m t) ts m0) = length m0"
  by (induction ts arbitrary: m0) simp_all

lemma onlyOf_isMatch_iff:
  assumes reg: "map tid (componentConstructors reg) = [0..<compTid reg]"
    and args: "set args \<subseteq> set (componentConstructors reg)"
    and bits: "\<And>t. Mask_has m t \<Longrightarrow> t < compTid reg"
  shows "isMatch (onlyOf reg args (Matcher [])) m \<longleftrightarrow>
           {t. Mask_has m t} = tid ` set args \<and> (\<forall>c \<in> set args. tid c mod 32 \<noteq> 31)"
proof -
  let ?n = "compTid reg"
  let ?S = "tid ` set args"
  have S: "t < ?n" if "t \<in> ?S" for t
  proof -
    from that args have "t \<in> set (map tid (componentConstructors reg))" by auto
    then show ?thesis unfolding reg by simp
  qed
  have room: "t div 32 < (?n + 31) div 32" if "t < ?n" for t
    using that by (simp add: div_less_iff_less_mult)
  let ?r0 = "BaseOf_new ?n AllOf (map tid args)"
  let ?others = "map tid (filter (\<lambda>c. tid c \<notin> set (map tid args)) (componentConstructors reg))"
  let ?r1 = "BaseOf_new ?n ExcludeOf ?others"
  have others: "set ?others = {0..<?n} - ?S"
  proof -
    have "set ?others = set (map tid (componentConstructors reg)) - ?S" by auto
    then show ?thesis unfolding reg by simp
  qed
  have m: "isMatch (onlyOf reg args (Matcher [])) m \<longleftrightarrow> rule_isMatch ?r0 m \<and> rule_isMatch ?r1 m"
    by (simp add: onlyOf_def push_rule_def isMatch_def Let_def)
  have has0: "Mask_has (r_mask ?r0) t \<longleftrightarrow> t \<in> ?S" for t
    using S room by auto
  have has1: "Mask_has (r_mask ?r1) t \<longleftrightarrow> t < ?n \<and> t \<notin> ?S" for t
    using room[of t] others by (auto simp del: set_map set_filter)
  have len0: "length (r_mask ?r0) = (?n + 31) div 32"
    by (simp add: BaseOf_new_def length_fold_Mask_set)
  have b31: "(\<forall>i<length (r_mask ?r0). \<not> bit (r_mask ?r0 ! i) 31) \<longleftrightarrow> (\<forall>c \<in> set args. tid c mod 32 \<noteq> 31)"
  proof
    assume h: "\<forall>i<length (r_mask ?r0). \<not> bit (r_mask ?r0 ! i) 31"
    show "\<forall>c \<in> set args. tid c mod 32 \<noteq> 31"
    proof
      fix c assume c: "c \<in> set args"
      then have "tid c \<in> ?S" by simp
      then have "Mask_has (r_mask ?r0) (tid c)" by (simp only: has0)
      then have "tid c div 32 < length (r_mask ?r0)" "bit (r_mask ?r0 ! (tid c div 32)) (tid c mod 32)"
        by (simp_all add: Mask_has_iff)
      with h show "tid c mod 32 \<noteq> 31" by auto
    qed
  next
    assume h: "\<forall>c \<in> set args. tid c mod 32 \<noteq> 31"
    show "\<forall>i<length (r_mask ?r0). \<not> bit (r_mask ?r0 ! i) 31"
    proof (intro allI impI notI)
      fix i assume "i < length (r_mask ?r0)" "bit (r_mask ?r0 ! i) 31"
      then have "Mask_has (r_mask ?r0) (32 * i + 31)" by (simp add: bit31_iff_has)
      then have "32 * i + 31 \<in> ?S" by (simp only: has0)
      then obtain c where "c \<in> set args" and "tid c = 32 * i + 31" by auto
      then have "tid c mod 32 = 31" by simp
      with h \<open>c \<in> set args\<close> show False by simp
    qed
  qed
  have "rule_isMatch ?r0 m = Mask_and (r_mask ?r0) m" by (simp add: rule_isMatch_def)
  also have "\<dots> \<longleftrightarrow> (\<forall>n. Mask_has (r_mask ?r0) n \<longrightarrow> Mask_has m n) \<and> (\<forall>c \<in> set args. tid c mod 32 \<noteq> 31)"
    unfolding Mask_and_iff b31 ..
  also have "\<dots> \<longleftrightarrow> ?S \<subseteq> {t. Mask_has m t} \<and> (\<forall>c \<in> set args. tid c mod 32 \<noteq> 31)"
    unfolding has0 by auto
  finally have r0: "rule_isMatch ?r0 m \<longleftrightarrow> ?S \<subseteq> {t. Mask_has m t} \<and> (\<forall>c \<in> set args. tid c mod 32 \<noteq> 31)" .
  have "rule_isMatch ?r1 m = (\<not> Mask_or (r_mask ?r1) m)" by (simp add: rule_isMatch_def)
  also have "\<dots> \<longleftrightarrow> \<not> (\<exists>n. Mask_has (r_mask ?r1) n \<and> Mask_has m n)"
    unfolding Mask_or_iff ..
  also have "\<dots> \<longleftrightarrow> {t. Mask_has m t} \<subseteq> ?S"
    unfolding has1 using bits by auto
  finally have r1: "rule_isMatch ?r1 m \<longleftrightarrow> {t. Mask_has m t} \<subseteq> ?S" .
  show ?thesis unfolding m r0 r1 by auto
qed

section \<open>Systems and groups\<close>



lemma get_matchEntities_simps [simp]:
  "matchEntities (snd (get_matchEntities g)) = matchEntities g"
  "count (snd (get_matchEntities g)) = count g"
  "matcher (snd (get_matchEntities g)) = matcher g"
  "cache_ok g \<Longrightarrow> cache_ok (snd (get_matchEntities g))"
  "cache_ok g \<Longrightarrow> fst (get_matchEntities g) = matchEntities g"
  by (auto simp: get_matchEntities_def cache_ok_def split: option.splits)










section \<open>Ticks\<close>







section \<open>Reactive systems deliver once\<close>

text \<open>In the states notifications lead to, a group with a member has a positive count and
  a coherent cache.\<close>

lemma onComponentAddOrRemove_count:
  assumes "distinct (matchEntities g)" and "int (length (matchEntities g)) \<le> count g" and "cache_ok g"
  shows "distinct (matchEntities (onComponentAddOrRemove e m g)) \<and>
         int (length (matchEntities (onComponentAddOrRemove e m g))) \<le> count (onComponentAddOrRemove e m g) \<and>
         cache_ok (onComponentAddOrRemove e m g)"
proof -
  have "length (removeAll e (matchEntities g)) < length (matchEntities g)" if "e \<in> set (matchEntities g)"
    using that by (simp add: length_removeAll_less)
  with assms show ?thesis
    by (auto simp: onComponentAddOrRemove_def Map_set_key_def cache_ok_def distinct_removeAll)
qed



section \<open>The invariants are those of the states the library builds\<close>

text \<open>The registries of the examples are what \<open>register\<close> builds.\<close>

lemma registry2_registered:
  "bnd (register ''Position'' None \<lparr>compTid = 0, componentConstructors = []\<rparr>) (\<lambda>(p, r1).
     bnd (register ''Velocity'' None r1) (\<lambda>(v, r2). Inr (p, v, r2))) =
   Inr (Position, Velocity, registry2)"
  by (simp add: register_def Position_def Velocity_def registry2_def Let_def)

lemma register_again: "register name (Some c) reg = Inl AlreadyContainComponent"
  by (simp add: register_def)

lemma registry_of_tids: "map tid (componentConstructors (registry_of n)) = [0..<n]"
  by (simp add: registry_of_def comp_def)

lemma registry_of_compTid [simp]: "compTid (registry_of n) = n"
  by (simp add: registry_of_def)

text \<open>The matchers built by the four methods are well formed.\<close>

lemma Matcher_ok_push: "Matcher_ok m \<Longrightarrow> BaseOf_ok r \<Longrightarrow> Matcher_ok (push_rule r m)"
  by (cases m) (simp_all add: Matcher_ok_def push_rule_def)

lemma Matcher_ok_built:
  assumes "Matcher_ok m"
  shows "Matcher_ok (anyOf reg args m)" "Matcher_ok (allOf reg args m)"
    "Matcher_ok (excludeOf reg args m)" "Matcher_ok (onlyOf reg args m)"
  using assms by (simp_all add: anyOf_def allOf_def excludeOf_def onlyOf_def Let_def Matcher_ok_push)

lemma Matcher_ok_empty [simp]: "Matcher_ok (Matcher [])" "Matcher_ok (OrMatcher [])"
  by (simp_all add: Matcher_ok_def)

text \<open>\<open>createGroup\<close> leaves a new group registered.\<close>

lemma subscribe_keeps:
  assumes "subscribe is key subs = Inr subs'"
  shows "length subs' = length subs \<and>
         (\<forall>t < length subs. set (subs ! t) \<subseteq> set (subs' ! t))"
  using assms
proof (induction "is" arbitrary: subs)
  case Nil
  then show ?case by simp
next
  case (Cons i "is")
  from Cons.prems have i: "i < length subs"
    and rest: "subscribe is key (subs[i := subs ! i @ [key]]) = Inr subs'"
    by (auto split: if_splits)
  from Cons.IH[OF rest] have len: "length subs' = length subs"
    and mono: "\<And>t. t < length subs \<Longrightarrow> set (subs[i := subs ! i @ [key]] ! t) \<subseteq> set (subs' ! t)"
    by simp_all
  have "set (subs ! t) \<subseteq> set (subs' ! t)" if "t < length subs" for t
  proof -
    have "set (subs ! t) \<subseteq> set (subs[i := subs ! i @ [key]] ! t)"
      using that by (cases "t = i") auto
    with mono[OF that] show ?thesis by blast
  qed
  with len show ?case by simp
qed

lemma subscribe_subscribes:
  assumes "subscribe is key subs = Inr subs'" and "t \<in> set is"
  shows "t < length subs' \<and> key \<in> set (subs' ! t)"
  using assms
proof (induction "is" arbitrary: subs)
  case Nil
  then show ?case by simp
next
  case (Cons i "is")
  from Cons.prems(1) have i: "i < length subs"
    and rest: "subscribe is key (subs[i := subs ! i @ [key]]) = Inr subs'"
    by (auto split: if_splits)
  show ?case
  proof (cases "t = i")
    case True
    from subscribe_keeps[OF rest] have len: "length subs' = length subs"
      and mono: "\<forall>t < length subs. set (subs[i := subs ! i @ [key]] ! t) \<subseteq> set (subs' ! t)"
      by simp_all
    from mono i have "set (subs[i := subs ! i @ [key]] ! i) \<subseteq> set (subs' ! i)" by blast
    with i have "key \<in> set (subs' ! i)" by auto
    with i len True show ?thesis by simp
  next
    case False
    with Cons.prems(2) have "t \<in> set is" by simp
    from Cons.IH[OF rest this] show ?thesis .
  qed
qed

lemma createGroup_registered:
  assumes "createGroup m systemType w = Inr (k, w')" and "Matcher_ok m"
    and "map_of (groups (ecs_context w)) (systemType @ ''_'' @ getKey m) = None"
  shows "registered k w' \<and> group_members k w' = [] \<and> k = systemType @ ''_'' @ getKey m"
proof -
  let ?key = "systemType @ ''_'' @ getKey m"
  from assms(1,3) obtain subs where
    s: "subscribe (m_indices m) ?key (componentAddOrRemove (ecs_context w)) = Inr subs"
    and k: "k = ?key"
    and w': "w' = w\<lparr>ecs_context := (ecs_context w)
                              \<lparr>groups := groups (ecs_context w) @ [(?key, Group_new m)],
                               componentAddOrRemove := subs\<rparr>\<rparr>"
    by (auto simp: createGroup_def Let_def bnd_Inr_iff)
  have g: "map_of (groups (ecs_context w')) k = Some (Group_new m)"
    unfolding w' k using assms(3) by (simp add: map_add_def)
  moreover have "\<forall>t \<in> set (m_indices m). t < length subs \<and> k \<in> set (subs ! t)"
    using subscribe_subscribes[OF s] k by simp
  ultimately show ?thesis
    using assms(2) k by (simp add: registered_def group_members_def Group_new_def list_all_iff w')
qed

text \<open>The invariant of an entity.\<close>

lemma set_AList_update: "set (AList.update k v al) \<subseteq> insert (k, v) (set al)"
  by (induction al) auto

lemma set_AList_delete: "set (AList.delete k al) = {p \<in> set al. fst p \<noteq> k}"
  by (induction al) auto

lemma Entity_ok_new:
  "Entity_ok \<lparr>e_mask = Mask_new n, compTid2Ctor = [], e_context = b, props = []\<rparr>"
  by (simp add: Entity_ok_iff)

lemma Entity_ok_added:
  assumes "Entity_ok ent"
  shows "Entity_ok (ent\<lparr>e_mask := Mask_set (e_mask ent) (tid c),
                        props := ps,
                        compTid2Ctor := AList.update (tid c) c (compTid2Ctor ent)\<rparr>)"
proof -
  from assms have 1: "\<And>t c'. (t, c') \<in> set (compTid2Ctor ent) \<Longrightarrow> tid c' = t"
    and 2: "\<And>t. Mask_has (e_mask ent) t \<Longrightarrow> t \<in> fst ` set (compTid2Ctor ent)"
    by (auto simp: Entity_ok_iff)
  have "tid c' = t" if "(t, c') \<in> set (AList.update (tid c) c (compTid2Ctor ent))" for t c'
    using that set_AList_update[of "tid c" c "compTid2Ctor ent"] 1 by auto
  moreover have "t \<in> fst ` set (AList.update (tid c) c (compTid2Ctor ent))"
    if "Mask_has (Mask_set (e_mask ent) (tid c)) t" for t
    using that 2 by (auto simp: Mask_has_set dom_update)
  ultimately show ?thesis by (auto simp: Entity_ok_iff)
qed

lemma Entity_ok_removed:
  assumes "Entity_ok ent"
  shows "Entity_ok (ent\<lparr>props := ps,
                        e_mask := Mask_delete (e_mask ent) (tid c),
                        compTid2Ctor := AList.delete (tid c) (compTid2Ctor ent)\<rparr>)"
proof -
  from assms have 1: "\<And>t c'. (t, c') \<in> set (compTid2Ctor ent) \<Longrightarrow> tid c' = t"
    and 2: "\<And>t. Mask_has (e_mask ent) t \<Longrightarrow> t \<in> fst ` set (compTid2Ctor ent)"
    by (auto simp: Entity_ok_iff)
  have "t \<in> fst ` set (AList.delete (tid c) (compTid2Ctor ent))"
    if "Mask_has (Mask_delete (e_mask ent) (tid c)) t" for t
  proof -
    from that have "Mask_has (e_mask ent) t" "t \<noteq> tid c" by (simp_all add: Mask_has_delete)
    from 2[OF this(1)] obtain p where "p \<in> set (compTid2Ctor ent)" "fst p = t"
      by (auto simp: image_iff)
    with \<open>t \<noteq> tid c\<close> have "p \<in> set (AList.delete (tid c) (compTid2Ctor ent))"
      by (simp add: set_AList_delete)
    with \<open>fst p = t\<close> show ?thesis by force
  qed
  with 1 show ?thesis by (auto simp: Entity_ok_iff set_AList_delete)
qed

lemma Entity_remove_ok:
  assumes "Entity_remove c e w = Inr w'" and "map_of (entities w) e = Some ent" and "Entity_ok ent"
  shows "\<exists>ent'. map_of (entities w') e = Some ent' \<and> Entity_ok ent'"
  using assms(1)
proof (cases rule: Entity_remove_InrE)
  case (absent ent0)
  with assms show ?thesis by simp
next
  case (present ent0 w1 w2)
  with assms(2) have "ent0 = ent" by simp
  with present(6) assms(3) show ?thesis by (simp add: Entity_ok_removed)
qed

lemma Entity_add_ok:
  assumes "Entity_add c e w = Inr (r, w')" and "map_of (entities w) e = Some ent" and "Entity_ok ent"
  shows "\<exists>ent'. map_of (entities w') e = Some ent' \<and> Entity_ok ent'"
  using assms(1)
proof (cases rule: Entity_add_InrE)
  case (destroyed ent0)
  with assms show ?thesis by simp
next
  case (live ent0 w1 ent1 x w2)
  have "Entity_ok ent1"
  proof (cases "Mask_has (e_mask ent0) (tid c)")
    case True
    with live(3) have "Entity_remove c e w = Inr w1" by simp
    from Entity_remove_ok[OF this assms(2,3)] live(4) show ?thesis by simp
  next
    case False
    with live(1,3,4) assms(2,3) show ?thesis by simp
  qed
  then have "Entity_ok (ent1\<lparr>e_mask := Mask_set (e_mask ent1) (tid c),
                                 props := AList.update (compName c) x (props ent1),
                                 compTid2Ctor := AList.update (tid c) c (compTid2Ctor ent1)\<rparr>)"
    by (rule Entity_ok_added)
  moreover from live(6) have "map_of (entities w') e =
      Some (ent1\<lparr>e_mask := Mask_set (e_mask ent1) (tid c),
                                 props := AList.update (compName c) x (props ent1),
                                 compTid2Ctor := AList.update (tid c) c (compTid2Ctor ent1)\<rparr>)"
    unfolding broadcast_Inr by simp
  ultimately show ?thesis by simp
qed

text \<open>A new entity is consistent with every group that does not hold it and whose matcher
  rejects the empty mask.\<close>

lemma consistent_new_entity:
  assumes "map_of (groups (ecs_context w)) k = Some g"
    and "entityPool (ecs_context w) = []"
    and "Entity_eid w \<notin> set (matchEntities g)"
    and "\<not> isMatch (matcher g) (Mask_new (compTid (registry w)))"
  shows "consistent k (fst (createEntity w)) (snd (createEntity w))"
proof -
  obtain e w' where ce: "createEntity w = (e, w')" by (cases "createEntity w")
  then show ?thesis
  proof (cases rule: createEntity_cases)
    case new
    with assms createEntity_frame[OF ce] ce show ?thesis
      by (simp add: consistent_def entity_mask_def)
  next
    case recycled
    with assms show ?thesis by simp
  qed
qed

end
